theory Spec2Isabelle
  imports Complex_Main
begin

section \<open>LogTailer: \<open>src/log_monitor.py\<close>\<close>

text \<open>
  A log file is the list of its characters; a read position is an offset into it.
  \<open>LogMonitor._read_new_lines\<close> opens the file in text mode with Python's default
  \<open>newline=None\<close>, so \<open>readline\<close> ends a line at \<open>\n\<close>, at \<open>\r\n\<close> and at a
  lone \<open>\r\<close>, and hands the line back with the terminator translated to \<open>\n\<close>.
  At end of file it returns what is left, without a terminator.
\<close>

type_synonym path = string

definition LF :: char where
  "LF = CHR 0x0A"

definition CR :: char where
  "CR = CHR 0x0D"

fun readline :: "string \<Rightarrow> string \<times> string" where
  "readline [] = ([], [])"
| "readline (c # cs) =
     (if c = LF then ([LF], cs)
      else if c = CR then
        (case cs of
           [] \<Rightarrow> ([LF], [])
         | d # ds \<Rightarrow> if d = LF then ([LF], ds) else ([LF], cs))
      else (case readline cs of (l, r) \<Rightarrow> (c # l, r)))"

text \<open>\<open>line.rstrip('\n\r')\<close>: every trailing \<open>\n\<close> and \<open>\r\<close> is removed.\<close>

definition rstrip_eol :: "string \<Rightarrow> string" where
  "rstrip_eol s = rev (dropWhile (\<lambda>c. c = LF \<or> c = CR) (rev s))"

lemma readline_rest_le: "length (snd (readline data)) \<le> length data"
proof (induction data)
  case Nil
  show ?case by simp
next
  case (Cons c cs)
  show ?case
  proof (cases "c = LF \<or> c = CR")
    case True
    then show ?thesis by (cases cs) auto
  next
    case False
    with Cons show ?thesis by (simp add: case_prod_beta)
  qed
qed

lemma readline_shorter: "data \<noteq> [] \<Longrightarrow> length (snd (readline data)) < length data"
proof (cases data)
  case Nil
  assume "data \<noteq> []"
  with Nil show ?thesis by simp
next
  case (Cons c cs)
  show ?thesis
  proof (cases "c = LF \<or> c = CR")
    case True
    with Cons show ?thesis by (cases cs) auto
  next
    case False
    have "length (snd (readline cs)) \<le> length cs" by (rule readline_rest_le)
    with False Cons show ?thesis by (simp add: case_prod_beta)
  qed
qed

text \<open>
  The loop of \<open>_read_new_lines\<close>: \<open>readline\<close> until it returns the empty string; each
  line is stripped and, when something is left of it, handed to \<open>on_new_line\<close>.
  The result is the list of lines handed over, in order.
\<close>

function read_lines :: "string \<Rightarrow> string list" where
  "read_lines data =
     (if data = [] then []
      else (let line = rstrip_eol (fst (readline data))
            in (if line \<noteq> [] then [line] else []) @ read_lines (snd (readline data))))"
  by pat_completeness auto
termination
  by (relation "measure length") (auto simp: readline_shorter)

declare read_lines.simps [simp del]

record monitor =
  active_file :: "path option"
  file_positions :: "path \<rightharpoonup> nat"
  active_file_check_counter :: nat

text \<open>
  \<open>_read_new_lines(filepath)\<close>. The third argument is what opening the file gives:
  \<open>None\<close> when \<open>open\<close> raises \<open>IOError\<close>/\<open>PermissionError\<close> (caught: nothing is
  emitted and the position is kept), otherwise the file's content. A position past
  the end reads nothing and \<open>tell\<close> gives the position back.
\<close>

definition read_new_lines :: "monitor \<Rightarrow> path \<Rightarrow> string option \<Rightarrow> monitor \<times> string list" where
  "read_new_lines st filepath opened =
     (case opened of
        None \<Rightarrow> (st, [])
      | Some content \<Rightarrow>
          (let current_pos = (case file_positions st filepath of None \<Rightarrow> 0 | Some p \<Rightarrow> p);
               data = drop current_pos content;
               new_pos = current_pos + length data
           in (st\<lparr>file_positions := (file_positions st)(filepath \<mapsto> new_pos)\<rparr>,
               read_lines data)))"

text \<open>
  What one pass of \<open>_monitor_loop\<close> sees of the file system:
  \<open>scan\<close> is the result of \<open>_get_active_file()\<close> (\<open>None\<close> when it raises, for instance
  because a file vanished between \<open>glob\<close> and \<open>stat\<close>); \<open>end_of_file f\<close> is the offset
  found by \<open>seek(0, 2); tell()\<close> (\<open>None\<close> when opening \<open>f\<close> raises);
  \<open>file_exists\<close> is \<open>Path.exists\<close>; \<open>file_content f\<close> is what \<open>_read_new_lines\<close> gets
  when it opens \<open>f\<close>.
\<close>

record tick_env =
  scan :: "path option option"
  end_of_file :: "path \<Rightarrow> nat option"
  file_exists :: "path \<Rightarrow> bool"
  file_content :: "path \<Rightarrow> string option"

definition read_active :: "tick_env \<Rightarrow> monitor \<Rightarrow> monitor \<times> string list" where
  "read_active e st =
     (case active_file st of
        None \<Rightarrow> (st, [])
      | Some f \<Rightarrow> if file_exists e f then read_new_lines st f (file_content e f) else (st, []))"

definition activate :: "tick_env \<Rightarrow> monitor \<Rightarrow> path option \<Rightarrow> monitor" where
  "activate e st new_active =
     (if new_active \<noteq> active_file st then
        (case new_active of
           None \<Rightarrow> st\<lparr>active_file := None\<rparr>
         | Some f \<Rightarrow>
             st\<lparr>active_file := Some f,
                file_positions := (file_positions st)
                  (f \<mapsto> (case end_of_file e f of Some end_pos \<Rightarrow> end_pos | None \<Rightarrow> 0))\<rparr>)
      else st)"

text \<open>One pass of the \<open>while self.running\<close> loop: the new state and the lines emitted.\<close>

definition monitor_iteration :: "tick_env \<Rightarrow> monitor \<Rightarrow> monitor \<times> string list" where
  "monitor_iteration e st =
     (let counter = active_file_check_counter st + 1
      in if counter \<ge> 10 \<or> active_file st = None then
           (case scan e of
              None \<Rightarrow> (st\<lparr>active_file_check_counter := 0\<rparr>, [])
            | Some new_active \<Rightarrow>
                read_active e (activate e (st\<lparr>active_file_check_counter := 0\<rparr>) new_active))
         else read_active e (st\<lparr>active_file_check_counter := counter\<rparr>))"


section \<open>Strings\<close>

text \<open>
  \<open>str.strip()\<close> removes leading and trailing white space; on the ASCII range that is
  the characters \<open>0x09\<close>--\<open>0x0D\<close>, \<open>0x1C\<close>--\<open>0x1F\<close> and the blank.
  \<open>str.lower()\<close> maps \<open>A\<close>--\<open>Z\<close> to \<open>a\<close>--\<open>z\<close>.
\<close>

definition is_space :: "char \<Rightarrow> bool" where
  "is_space c = (let n = (of_char c :: nat) in (9 \<le> n \<and> n \<le> 13) \<or> (28 \<le> n \<and> n \<le> 32))"

definition strip :: "string \<Rightarrow> string" where
  "strip s = rev (dropWhile is_space (rev (dropWhile is_space s)))"

definition lower_char :: "char \<Rightarrow> char" where
  "lower_char c = (let n = (of_char c :: nat) in if 65 \<le> n \<and> n \<le> 90 then char_of (n + 32) else c)"

definition lower :: "string \<Rightarrow> string" where
  "lower s = map lower_char s"

section \<open>Dispatcher queue and delivery worker: \<open>src/discord_notifier.py\<close>\<close>

text \<open>
  The queue holds pairs \<open>(webhook_url, message)\<close>; \<open>None\<close> is the stop signal that
  \<open>stop()\<close> puts.
\<close>

type_synonym envelope = "string \<times> string"

text \<open>
  \<open>DiscordNotifier.notify(message, webhook_url)\<close>: the instance default is used only
  when the caller passes \<open>None\<close>; an empty URL queues nothing.
\<close>

definition notify :: "string option \<Rightarrow> string \<Rightarrow> string option \<Rightarrow> envelope option list \<Rightarrow> envelope option list" where
  "notify default_webhook_url message webhook_url message_queue =
     (let url = (case webhook_url of
                   None \<Rightarrow> strip (case default_webhook_url of None \<Rightarrow> [] | Some d \<Rightarrow> d)
                 | Some w \<Rightarrow> strip w)
      in if url \<noteq> [] then message_queue @ [Some (url, message)] else message_queue)"









section \<open>IngestGate: \<open>_on_new_log_line\<close> and the clean-up in \<open>_process_log_line\<close> (\<open>src/main.py\<close>)\<close>

text \<open>
  The ingest gate keeps the set \<open>recently_processed_lines\<close> of content hashes and the queue of
  lines handed to the main thread. The hash function (\<open>hashlib.md5(...).hexdigest()\<close>)
  is a parameter; only its values are compared, so their type is left open.
\<close>

record 'h ingest =
  recently_processed_lines :: "'h set"
  log_line_queue :: "string list"

definition on_new_log_line :: "(string \<Rightarrow> 'h) \<Rightarrow> 'h ingest \<Rightarrow> string \<Rightarrow> 'h ingest" where
  "on_new_log_line md5 st line =
     (let line_hash = md5 line
      in if line_hash \<in> recently_processed_lines st then st
         else st\<lparr>recently_processed_lines := insert line_hash (recently_processed_lines st),
                 log_line_queue := log_line_queue st @ [line]\<rparr>)"

text \<open>
  The clean-up that \<open>_process_log_line\<close> runs for a parsed kill line that passed the
  exact-duplicate and location checks:
  \<^verbatim>\<open>
  if len(self.recently_processed_lines) > 2000:
      entries_list = list(self.recently_processed_lines)
      self.recently_processed_lines = set(entries_list[len(entries_list)//2:])
  \<close>
  \<open>list(s)\<close> enumerates a Python set in the order of its hash table, which is not the
  order of insertion; the enumeration is therefore an argument: any list without
  repetition whose elements are those of the set.
\<close>

definition cleanup_processed_lines :: "'h list \<Rightarrow> 'h ingest \<Rightarrow> 'h ingest" where
  "cleanup_processed_lines entries_list st =
     (if card (recently_processed_lines st) > 2000
      then st\<lparr>recently_processed_lines := set (drop (length entries_list div 2) entries_list)\<rparr>
      else st)"

section \<open>Kill events, the target registry and the pipeline state (\<open>src/main.py\<close>, \<open>src/boss_database.py\<close>)\<close>

text \<open>\<open>BossKillMessage\<close> (\<open>src/message_parser.py\<close>): a dataclass, compared field by field.\<close>

record boss_kill_message =
  timestamp :: string
  server :: string
  player :: string
  guild :: string
  monster :: string
  location :: string

text \<open>
  A registry entry. The source keeps entries as dictionaries and reads them with
  \<open>get('note', '')\<close>, \<open>get('enabled', False)\<close>, \<open>get('location', '')\<close>,
  \<open>get('kill_count', 0)\<close>: a missing key is the default value here.
  \<open>last_killed\<close> is the parsed log time, or the wall clock when the log time does not
  parse.
\<close>

datatype killed_at = Log_time int | Wall_clock

record boss =
  name :: string
  boss_location :: string
  boss_note :: string
  enabled :: bool
  kill_count :: nat
  last_killed :: "killed_at option"
  last_killed_timestamp :: "string option"

text \<open>
  The registry is the list \<open>BossDatabase.bosses\<close>. The pipeline passes entries around
  by reference and \<open>increment_kill_count\<close> updates the entry it is given in place, so an
  entry is referred to by its position in the list.
\<close>

definition exists :: "boss list \<Rightarrow> string \<Rightarrow> bool" where
  "exists bosses monster_name = list_ex (\<lambda>b. lower (name b) = lower monster_name) bosses"

definition get_bosses_by_name :: "boss list \<Rightarrow> string \<Rightarrow> nat list" where
  "get_bosses_by_name bosses monster_name =
     filter (\<lambda>i. lower (name (bosses ! i)) = lower monster_name) [0..<length bosses]"

definition get_boss :: "boss list \<Rightarrow> string \<Rightarrow> nat option" where
  "get_boss bosses monster_name =
     (case get_bosses_by_name bosses monster_name of [] \<Rightarrow> None | i # _ \<Rightarrow> Some i)"

definition duplicate_boss_names :: "string list" where
  "duplicate_boss_names = [''Thall Va Xakra'', ''Kaas Thox Xi Aten Ha Ra'']"

text \<open>
  \<open>increment_kill_count(monster_name, kill_timestamp, boss)\<close> with the entry given.
  \<open>strptime\<close> is \<open>datetime.strptime(_, "%a %b %d %H:%M:%S %Y")\<close> as seconds, \<open>None\<close>
  when it raises \<open>ValueError\<close>. The entry is updated before \<open>save()\<close> is called, so the
  update stands also when \<open>save()\<close> raises.
\<close>

definition increment_kill_count :: "(string \<Rightarrow> int option) \<Rightarrow> boss list \<Rightarrow> string \<Rightarrow> nat \<Rightarrow> boss list" where
  "increment_kill_count strptime bosses kill_timestamp boss =
     (if boss < length bosses then
        (let b = (bosses ! boss)\<lparr>kill_count := kill_count (bosses ! boss) + 1\<rparr>
         in bosses[boss :=
              (if kill_timestamp \<noteq> [] then
                 (case strptime kill_timestamp of
                    Some log_dt \<Rightarrow> b\<lparr>last_killed := Some (Log_time log_dt),
                                      last_killed_timestamp := Some kill_timestamp\<rparr>
                  | None \<Rightarrow> b\<lparr>last_killed := Some Wall_clock\<rparr>)
               else b\<lparr>last_killed := Some Wall_clock\<rparr>)])
      else bosses)"

text \<open>
  \<open>add_boss(monster_name, location, enabled)\<close> as \<open>_add_new_boss\<close> calls it (no note):
  the new list and the reference of the entry returned.
\<close>

definition add_boss :: "boss list \<Rightarrow> string \<Rightarrow> string \<Rightarrow> bool \<Rightarrow> boss list \<times> nat" where
  "add_boss bosses monster_name loc en =
     (case (if monster_name \<in> set duplicate_boss_names then None else get_boss bosses monster_name) of
        Some i \<Rightarrow>
          (if loc \<noteq> [] \<and> boss_location (bosses ! i) = []
           then (bosses[i := (bosses ! i)\<lparr>boss_location := loc\<rparr>], i)
           else (bosses, i))
      | None \<Rightarrow>
          (bosses @ [\<lparr>name = monster_name, boss_location = loc, boss_note = [], enabled = en,
                      kill_count = 0, last_killed = None, last_killed_timestamp = None\<rparr>],
           length bosses))"

text \<open>
  The audit trail: every call of \<open>_add_activity_entry\<close> (and of
  \<open>activity_db.add_activity\<close>) appends an entry. The status texts of the source, some of
  which format a number into the text, are the constructors of \<open>status\<close>:
  \<^item> \<open>Skipped_by_buffer l\<close>: "Duplicate message skipped (buffer selected l message instead)"
  \<^item> \<open>New_boss_detected\<close>: "New boss detected (not in database)"
  \<^item> \<open>Cancelled\<close>: "Kill detected but cancelled (duplicate name selection)"
  \<^item> \<open>Boss_not_found\<close>: "Error: Boss not found or selection cancelled"
  \<^item> \<open>Location_mismatch b m\<close>: "Location mismatch (boss is b, message is m)"
  \<^item> \<open>Disabled_not_posted\<close>: "Boss kill detected (disabled - not posted)"
  \<^item> \<open>Duplicate_exact_match\<close>: "Duplicate detected (exact match), skipped"
  \<^item> \<open>Duplicate_within d\<close>: "Duplicate (within d s of previous kill)"
  \<^item> \<open>Duplicate_posted_ago d\<close>: "Duplicate (posted d s ago), skipped"
  \<^item> \<open>Duplicate_on_channel\<close>: "Duplicate detected, skipped"
  \<^item> \<open>No_webhook\<close>: "Not posted (no webhook URL in settings)"
  \<^item> \<open>Posted\<close>: "Posted to Discord"
\<close>

datatype status =
    Skipped_by_buffer string
  | New_boss_detected
  | Cancelled
  | Boss_not_found
  | Location_mismatch string string
  | Disabled_not_posted
  | Duplicate_exact_match
  | Duplicate_within int
  | Duplicate_posted_ago real
  | Duplicate_on_channel
  | No_webhook
  | Posted

record activity_entry =
  entry_message :: boss_kill_message
  entry_status :: status
  entry_posted :: bool
  entry_discord_message :: "string option"

record buffer =
  messages :: "boss_kill_message list"
  processed :: bool

text \<open>
  The state of \<open>BossTrackerApp\<close> that the pipeline reads and writes. Three fields
  record what leaves the pipeline: \<open>activity\<close> (the audit trail), \<open>notifier_queue\<close> (the
  queue of \<open>DiscordNotifier\<close>: a dispatch is an envelope put there) and
  \<open>selection_requests\<close> (every call of \<open>_handle_duplicate_boss_selection\<close>, with the name
  and the candidates passed). \<open>deferred\<close> holds the calls of \<open>_process_boss_kill\<close> that
  \<open>_add_new_boss\<close> schedules with \<open>QTimer.singleShot(0, ...)\<close>.
\<close>

record app =
  bosses :: "boss list"
  recently_processed_kills :: "(string \<times> string) set"
  recent_kills_by_monster :: "string \<rightharpoonup> (int \<times> string) list"
  last_discord_post_time_by_monster :: "string \<rightharpoonup> real"
  message_buffer :: "string \<rightharpoonup> buffer"
  active_duplicate_dialogs :: "string set"
  active_new_boss_dialogs :: "string set"
  pending_boss_kills :: "string \<rightharpoonup> boss_kill_message"
  activity :: "activity_entry list"
  notifier_queue :: "envelope option list"
  selection_requests :: "(string \<times> nat list) list"
  deferred :: "(boss_kill_message \<times> nat) list"

text \<open>
  What the user does with \<open>DuplicateBossDialog\<close>: the import of the dialog module
  fails, showing the dialog raises, the dialog is accepted with the candidate at a
  position checked (or with none), or it is rejected.
\<close>

datatype dialog_result = Import_error | Dialog_error | Accepted "nat option" | Rejected

datatype error = IndexError

text \<open>
  What one call into the pipeline reads from outside: the clock (\<open>time.time()\<close> at the
  cooldown check and when the post time is stored), the three reads of the webhook
  setting from the settings file, the delivery-side duplicate check
  (\<open>discord_checker\<close>), the templates, the user's answer to the selection dialog and
  the \<open>new_boss_default_action\<close> setting. \<open>format_message\<close> stands for
  \<open>DiscordNotifier.format_message\<close>, whose text substitution no property here depends
  on.
\<close>

record app_env =
  strptime :: "string \<Rightarrow> int option"
  time_at_check :: real
  time_at_post :: real
  webhook_setting :: "nat \<Rightarrow> string"
  checker_ready :: bool
  channel_id :: "nat option"
  check_duplicate_sync :: "nat \<Rightarrow> boss_kill_message \<Rightarrow> bool option"
  message_template :: string
  lockout_message_template :: string
  format_message :: "string \<Rightarrow> boss_kill_message \<Rightarrow> string \<Rightarrow> string"
  dialog :: dialog_result
  new_boss_default_action :: string

definition SAME_KILL_WINDOW_SECONDS :: int where
  "SAME_KILL_WINDOW_SECONDS = 9"

text \<open>
  \<open>_add_activity_entry\<close>. Writing to the activity database is taken to succeed; when
  it raises, the source lets the exception leave the caller, and nothing further is
  dispatched or counted for that event.
\<close>

definition add_activity_entry :: "app \<Rightarrow> boss_kill_message \<Rightarrow> status \<Rightarrow> bool \<Rightarrow> string option \<Rightarrow> app" where
  "add_activity_entry st parsed s posted message =
     st\<lparr>activity := activity st @
        [\<lparr>entry_message = parsed, entry_status = s, entry_posted = posted,
          entry_discord_message = message\<rparr>]\<rparr>"

definition kill_key :: "boss_kill_message \<Rightarrow> string \<times> string" where
  "kill_key parsed = (timestamp parsed, lower (monster parsed))"

text \<open>
  The time-window check of \<open>_process_boss_kill\<close>: the difference to the first recorded
  kill of the same name that lies within the window, if there is one. A timestamp
  that does not parse skips the check.
\<close>

definition recent_duplicate :: "app_env \<Rightarrow> app \<Rightarrow> boss_kill_message \<Rightarrow> int option" where
  "recent_duplicate e st parsed =
     (case strptime e (timestamp parsed) of
        None \<Rightarrow> None
      | Some kill_time \<Rightarrow>
          (case recent_kills_by_monster st (lower (monster parsed)) of
             None \<Rightarrow> None
           | Some kills \<Rightarrow>
               (case filter (\<lambda>(prev_time, prev_location).
                               \<bar>kill_time - prev_time\<bar> \<le> SAME_KILL_WINDOW_SECONDS) kills of
                  [] \<Rightarrow> None
                | (prev_time, prev_location) # _ \<Rightarrow> Some \<bar>kill_time - prev_time\<bar>)))"

text \<open>
  Marking the kill as processed: the kill key is added, and the kill is appended to
  the list of its name, which is cut to the entries of the last minute and then to
  the last three.
\<close>

definition record_kill :: "app_env \<Rightarrow> app \<Rightarrow> boss_kill_message \<Rightarrow> app" where
  "record_kill e st parsed =
     (let st1 = st\<lparr>recently_processed_kills := insert (kill_key parsed) (recently_processed_kills st)\<rparr>
      in case strptime e (timestamp parsed) of
           None \<Rightarrow> st1
         | Some kill_time \<Rightarrow>
             (let kills = (case recent_kills_by_monster st (lower (monster parsed)) of
                             None \<Rightarrow> [] | Some l \<Rightarrow> l) @ [(kill_time, location parsed)];
                  kept = filter (\<lambda>(t, loc). t > kill_time - 60) kills
              in st1\<lparr>recent_kills_by_monster := (recent_kills_by_monster st)
                       (lower (monster parsed) \<mapsto> drop (length kept - 3) kept)\<rparr>))"

text \<open>\<open>_get_webhook_url_for_post()\<close>, read number \<open>n\<close> of this call.\<close>

definition get_webhook_url_for_post :: "app_env \<Rightarrow> nat \<Rightarrow> string" where
  "get_webhook_url_for_post e n = strip (webhook_setting e n)"

text \<open>
  The delivery-side duplicate check; any exception inside it leaves \<open>is_duplicate\<close>
  false.
\<close>

definition discord_is_duplicate :: "app_env \<Rightarrow> string \<Rightarrow> boss_kill_message \<Rightarrow> bool" where
  "discord_is_duplicate e webhook_url parsed =
     (if checker_ready e \<and> webhook_url \<noteq> [] then
        (case channel_id e of
           None \<Rightarrow> False
         | Some c \<Rightarrow> if c = 0 then False
                     else (case check_duplicate_sync e c parsed of None \<Rightarrow> False | Some d \<Rightarrow> d))
      else False)"

text \<open>
  The wall-clock guard: the time since the last post for this name, when that is less
  than the window.
\<close>

definition post_cooldown :: "app_env \<Rightarrow> app \<Rightarrow> string \<Rightarrow> real option" where
  "post_cooldown e st monster_key =
     (case last_discord_post_time_by_monster st monster_key of
        None \<Rightarrow> None
      | Some t \<Rightarrow> if time_at_check e - t < real_of_int SAME_KILL_WINDOW_SECONDS
                  then Some (time_at_check e - t) else None)"

text \<open>
  \<open>_process_boss_kill(parsed, boss)\<close>. Sound and desktop notification, which follow the
  post, change nothing of the state kept here.
\<close>

definition process_boss_kill :: "app_env \<Rightarrow> app \<Rightarrow> boss_kill_message \<Rightarrow> nat \<Rightarrow> app" where
  "process_boss_kill e st parsed boss =
     (if kill_key parsed \<in> recently_processed_kills st
      then add_activity_entry st parsed Duplicate_exact_match False None
      else (case recent_duplicate e st parsed of
        Some time_diff \<Rightarrow> add_activity_entry st parsed (Duplicate_within time_diff) False None
      | None \<Rightarrow>
         (let monster_key = lower (monster parsed);
              st1 = record_kill e st parsed;
              is_duplicate = discord_is_duplicate e (get_webhook_url_for_post e 0) parsed
          in case post_cooldown e st1 monster_key of
               Some elapsed \<Rightarrow> add_activity_entry st1 parsed (Duplicate_posted_ago elapsed) False None
             | None \<Rightarrow>
                if is_duplicate
                then add_activity_entry st1 parsed Duplicate_on_channel False None
                else
                  (let template = (if location parsed = ''Lockouts''
                                   then lockout_message_template e else message_template e);
                       message = format_message e template parsed (strip (boss_note (bosses st1 ! boss)))
                   in if get_webhook_url_for_post e 1 = [] \<or> get_webhook_url_for_post e 2 = []
                      then add_activity_entry st1 parsed No_webhook False None
                      else
                        (let st2 = st1\<lparr>last_discord_post_time_by_monster :=
                                          (last_discord_post_time_by_monster st1)(monster_key \<mapsto> time_at_post e),
                                        notifier_queue :=
                                          notify None message (Some (get_webhook_url_for_post e 2))
                                            (notifier_queue st1)\<rparr>;
                             st3 = st2\<lparr>bosses := increment_kill_count (strptime e) (bosses st2)
                                                     (timestamp parsed) boss\<rparr>
                         in add_activity_entry st3 parsed Posted True (Some message))))))"

text \<open>
  \<open>_handle_duplicate_boss_selection\<close>: the reference of the entry chosen, \<open>None\<close> when
  the dialog is cancelled. Both exception handlers log \<open>duplicate_bosses[0]\<close> before
  they return, which raises \<open>IndexError\<close> on an empty list.
\<close>

definition handle_duplicate_boss_selection :: "dialog_result \<Rightarrow> nat list \<Rightarrow> error + nat option" where
  "handle_duplicate_boss_selection result duplicate_bosses =
     (case result of
        Accepted choice \<Rightarrow>
          (case choice of
             None \<Rightarrow> Inr None
           | Some k \<Rightarrow> if k < length duplicate_bosses then Inr (Some (duplicate_bosses ! k))
                       else Inr None)
      | Rejected \<Rightarrow> Inr None
      | Import_error \<Rightarrow>
          (case duplicate_bosses of [] \<Rightarrow> Inl IndexError | first # _ \<Rightarrow> Inr (Some first))
      | Dialog_error \<Rightarrow>
          (case duplicate_bosses of [] \<Rightarrow> Inl IndexError | first # _ \<Rightarrow> Inr (Some first)))"

text \<open>
  \<open>_add_new_boss(name, location, enabled)\<close>: the entry is added; when it is enabled and
  a kill of that name is pending, \<open>_process_boss_kill\<close> is scheduled for it.
\<close>

definition add_new_boss :: "app \<Rightarrow> string \<Rightarrow> string \<Rightarrow> bool \<Rightarrow> app" where
  "add_new_boss st boss_name loc en =
     (case add_boss (bosses st) boss_name loc en of
        (bosses', boss) \<Rightarrow>
          (let st1 = st\<lparr>bosses := bosses'\<rparr>
           in if en then
                (case pending_boss_kills st1 (lower boss_name) of
                   None \<Rightarrow> st1
                 | Some parsed \<Rightarrow>
                     st1\<lparr>deferred := deferred st1 @ [(parsed, boss)],
                         pending_boss_kills := (pending_boss_kills st1)(lower boss_name := None)\<rparr>)
              else st1))"

text \<open>
  \<open>_handle_new_boss(parsed)\<close>: with a default action configured the entry is added at
  once; otherwise the (non-modal) new-target dialog is shown, unless one is open for
  that name.
\<close>

definition handle_new_boss :: "app_env \<Rightarrow> app \<Rightarrow> boss_kill_message \<Rightarrow> app" where
  "handle_new_boss e st parsed =
     (if exists (bosses st) (monster parsed) then st
      else if new_boss_default_action e = ''enable'' \<or> new_boss_default_action e = ''disable''
      then add_new_boss st (monster parsed) (location parsed) (new_boss_default_action e = ''enable'')
      else if lower (monster parsed) \<in> active_new_boss_dialogs st then st
      else st\<lparr>active_new_boss_dialogs := insert (lower (monster parsed)) (active_new_boss_dialogs st)\<rparr>)"

text \<open>
  The choice made when the buffer window closes: the first zone message if there is
  one, otherwise the first lockout message.
\<close>

definition select_message :: "boss_kill_message list \<Rightarrow> boss_kill_message option" where
  "select_message msgs =
     (case filter (\<lambda>msg. location msg \<noteq> ''Lockouts'') msgs of
        guild_message # _ \<Rightarrow> Some guild_message
      | [] \<Rightarrow>
          (case filter (\<lambda>msg. location msg = ''Lockouts'') msgs of
             lockout_message # _ \<Rightarrow> Some lockout_message
           | [] \<Rightarrow> None))"

text \<open>
  The second half of \<open>_process_buffered_messages\<close>, once the entry is known: the
  location check for names with several entries, then the enabled check.
\<close>

definition process_resolved :: "app_env \<Rightarrow> app \<Rightarrow> boss_kill_message \<Rightarrow> nat list \<Rightarrow> nat \<Rightarrow> app" where
  "process_resolved e st selected_message all_bosses boss =
     (let boss_location' = boss_location (bosses st ! boss);
          parsed_is_lockout = (location selected_message = ''Lockouts'');
          boss_is_lockout = (boss_location' = ''Lockouts'');
          is_known_dup = (monster selected_message \<in> set duplicate_boss_names)
      in if length all_bosses > 1 \<and> parsed_is_lockout \<noteq> boss_is_lockout \<and> \<not> is_known_dup
         then (if enabled (bosses st ! boss)
               then add_activity_entry st selected_message
                      (Location_mismatch boss_location' (location selected_message)) False None
               else st)
         else if enabled (bosses st ! boss)
         then process_boss_kill e st selected_message boss
         else add_activity_entry st selected_message Disabled_not_posted False None)"

text \<open>
  The first half, for a name the registry knows: zero, one or several entries. The
  dialog is asked only for several entries of which at least two carry a note, or
  whose name is one of \<open>duplicate_boss_names\<close>, and only when no dialog for that name is
  open.
\<close>

definition resolve_and_process :: "app_env \<Rightarrow> app \<Rightarrow> boss_kill_message \<Rightarrow> app" where
  "resolve_and_process e st selected_message =
     (let all_bosses = get_bosses_by_name (bosses st) (monster selected_message);
          bosses_with_notes = filter (\<lambda>b. strip (boss_note (bosses st ! b)) \<noteq> []) all_bosses;
          has_multiple_variants = (length bosses_with_notes > 1);
          is_known_duplicate = (monster selected_message \<in> set duplicate_boss_names);
          dialog_key = lower (monster selected_message)
      in if length all_bosses > 1 \<and> (has_multiple_variants \<or> is_known_duplicate) then
           (if dialog_key \<in> active_duplicate_dialogs st then st
            else
              (let st1 = st\<lparr>selection_requests := selection_requests st @
                               [(monster selected_message, all_bosses)],
                             active_duplicate_dialogs :=
                               insert dialog_key (active_duplicate_dialogs st) - {dialog_key}\<rparr>
               in case handle_duplicate_boss_selection (dialog e) all_bosses of
                    Inl err \<Rightarrow> st1
                  | Inr None \<Rightarrow> add_activity_entry st1 selected_message Cancelled False None
                  | Inr (Some boss) \<Rightarrow> process_resolved e st1 selected_message all_bosses boss))
         else if length all_bosses = 1
         then process_resolved e st selected_message all_bosses (hd all_bosses)
         else add_activity_entry st selected_message Boss_not_found False None)"

text \<open>
  \<open>_process_buffered_messages(monster_key)\<close>, called when the timer of the buffer
  fires. The messages other than the selected one are found with \<open>msg != selected_message\<close>,
  the field-wise comparison of the dataclass.
\<close>

definition process_buffered_messages :: "app_env \<Rightarrow> app \<Rightarrow> string \<Rightarrow> app" where
  "process_buffered_messages e st monster_key =
     (case message_buffer st monster_key of
        None \<Rightarrow> st
      | Some buffer_data \<Rightarrow>
          if processed buffer_data then st
          else
            (case select_message (messages buffer_data) of
               None \<Rightarrow> st\<lparr>message_buffer := (message_buffer st)(monster_key := None)\<rparr>
             | Some selected_message \<Rightarrow>
                 (let skipped_messages = filter (\<lambda>msg. msg \<noteq> selected_message) (messages buffer_data);
                      st1 = foldl (\<lambda>s skipped. add_activity_entry s skipped
                                     (Skipped_by_buffer (location selected_message)) False None)
                              st skipped_messages;
                      st2 = st1\<lparr>message_buffer := (message_buffer st1)(monster_key := None)\<rparr>
                  in if \<not> exists (bosses st2) (monster selected_message)
                     then handle_new_boss e
                            (add_activity_entry
                               (st2\<lparr>pending_boss_kills := (pending_boss_kills st2)
                                       (lower (monster selected_message) \<mapsto> selected_message)\<rparr>)
                               selected_message New_boss_detected False None)
                            selected_message
                     else resolve_and_process e st2 selected_message)))"

section \<open>Observations on the pipeline\<close>

text \<open>The kills the registry has on record, and the messages handed to the dispatcher.\<close>

definition kills_recorded :: "boss list \<Rightarrow> nat" where
  "kills_recorded bs = sum_list (map kill_count bs)"

definition dispatched :: "app \<Rightarrow> nat" where
  "dispatched st = length (notifier_queue st)"

text \<open>The audit entries that a step from \<open>st\<close> to \<open>st'\<close> has added.\<close>

definition new_entries :: "app \<Rightarrow> app \<Rightarrow> activity_entry list" where
  "new_entries st st' = drop (length (activity st)) (activity st')"

text \<open>
  The conditions under which \<open>_process_boss_kill\<close> reaches \<open>notify\<close>: no kill key on
  record, no kill of the name within the window, no post for the name within the
  wall-clock window, no duplicate found on the channel, and a webhook configured at
  both reads.
\<close>

definition will_post :: "app_env \<Rightarrow> app \<Rightarrow> boss_kill_message \<Rightarrow> bool" where
  "will_post e st parsed =
     (kill_key parsed \<notin> recently_processed_kills st
      \<and> recent_duplicate e st parsed = None
      \<and> post_cooldown e st (lower (monster parsed)) = None
      \<and> \<not> discord_is_duplicate e (get_webhook_url_for_post e 0) parsed
      \<and> get_webhook_url_for_post e 1 \<noteq> []
      \<and> get_webhook_url_for_post e 2 \<noteq> [])"

text \<open>
  The condition in front of the selection dialog in \<open>_process_buffered_messages\<close>: several
  entries of the name, of which at least two carry a note or whose name is one of
  \<open>duplicate_boss_names\<close>.
\<close>

definition dialog_needed :: "boss list \<Rightarrow> string \<Rightarrow> bool" where
  "dialog_needed bs monster_name =
     (length (get_bosses_by_name bs monster_name) > 1
      \<and> (length (filter (\<lambda>b. strip (boss_note (bs ! b)) \<noteq> []) (get_bosses_by_name bs monster_name)) > 1
         \<or> monster_name \<in> set duplicate_boss_names))"

text \<open>
  The audit entry written for a buffered message that was not selected, and the state
  after \<open>_process_buffered_messages\<close> has audited the messages it skips and deleted
  the buffer.
\<close>

definition skip_entry :: "string \<Rightarrow> boss_kill_message \<Rightarrow> activity_entry" where
  "skip_entry l m = \<lparr>entry_message = m, entry_status = Skipped_by_buffer l, entry_posted = False,
     entry_discord_message = None\<rparr>"

definition flushed :: "app \<Rightarrow> string \<Rightarrow> buffer \<Rightarrow> boss_kill_message \<Rightarrow> app" where
  "flushed st k buffer_data sel =
     st\<lparr>activity := activity st @
           map (skip_entry (location sel)) (filter (\<lambda>msg. msg \<noteq> sel) (messages buffer_data)),
        message_buffer := (message_buffer st)(k := None)\<rparr>"

text \<open>
  Two ways a step of the pipeline can end. \<open>untouched\<close>: nothing was dispatched, the
  registry entries are as before (an entry for a new name may have been added), no
  kill was counted and no audit entry says "posted". \<open>posted_once\<close>: one message was put
  on the queue behind those already there, the registry has the same entries, one
  more kill on record, and an audit entry says "posted". In both, the audit trail has
  only grown.
\<close>

definition untouched :: "app \<Rightarrow> app \<Rightarrow> bool" where
  "untouched st st' =
     (notifier_queue st' = notifier_queue st
      \<and> take (length (bosses st)) (bosses st') = bosses st
      \<and> kills_recorded (bosses st') = kills_recorded (bosses st)
      \<and> take (length (activity st)) (activity st') = activity st
      \<and> \<not> list_ex entry_posted (new_entries st st'))"

definition posted_once :: "app \<Rightarrow> app \<Rightarrow> bool" where
  "posted_once st st' =
     (dispatched st' = dispatched st + 1
      \<and> take (dispatched st) (notifier_queue st') = notifier_queue st
      \<and> length (bosses st') = length (bosses st)
      \<and> kills_recorded (bosses st') = kills_recorded (bosses st) + 1
      \<and> take (length (activity st)) (activity st') = activity st
      \<and> list_ex entry_posted (new_entries st st'))"

text \<open>The state in which the selection dialog has been asked about the selected message.\<close>

definition requested :: "app \<Rightarrow> boss_kill_message \<Rightarrow> app" where
  "requested st sel =
     st\<lparr>selection_requests := selection_requests st @
         [(monster sel, get_bosses_by_name (bosses st) (monster sel))]\<rparr>"

section \<open>Concrete scenarios\<close>

text \<open>
  The values used to run the pipeline on concrete inputs: a parse of the timestamps
  that occur (in seconds after 12:00:00), an environment with a webhook configured and
  no delivery-side check, an application state with nothing on record, enabled
  registry entries, and kill events of both grammars.
\<close>

definition scenario_strptime :: "string \<Rightarrow> int option" where
  "scenario_strptime s =
     (if s = ''Sat Feb 07 12:00:00 2026'' then Some 0
      else if s = ''Sat Feb 07 12:00:02 2026'' then Some 2
      else if s = ''Sat Feb 07 12:00:10 2026'' then Some 10
      else None)"

definition scenario_env :: "real \<Rightarrow> dialog_result \<Rightarrow> app_env" where
  "scenario_env now answer =
     \<lparr>strptime = scenario_strptime, time_at_check = now, time_at_post = now,
      webhook_setting = (\<lambda>n. ''https://discord.example/api/webhooks/1/x''),
      checker_ready = False, channel_id = None, check_duplicate_sync = (\<lambda>c m. None),
      message_template = ''{monster} was killed in {location}!'',
      lockout_message_template = ''{monster} lockout detected!'',
      format_message = (\<lambda>template parsed n. template @ '' / '' @ monster parsed @ '' / '' @ n),
      dialog = answer, new_boss_default_action = ''disable''\<rparr>"

definition scenario_app :: "boss list \<Rightarrow> app" where
  "scenario_app registry =
     \<lparr>bosses = registry, recently_processed_kills = {}, recent_kills_by_monster = Map.empty,
      last_discord_post_time_by_monster = Map.empty, message_buffer = Map.empty,
      active_duplicate_dialogs = {}, active_new_boss_dialogs = {},
      pending_boss_kills = Map.empty, activity = [], notifier_queue = [],
      selection_requests = [], deferred = []\<rparr>"

definition tracked :: "string \<Rightarrow> string \<Rightarrow> string \<Rightarrow> boss" where
  "tracked n loc nt =
     \<lparr>name = n, boss_location = loc, boss_note = nt, enabled = True, kill_count = 0,
      last_killed = None, last_killed_timestamp = None\<rparr>"

definition zone_kill :: "string \<Rightarrow> string \<Rightarrow> string \<Rightarrow> boss_kill_message" where
  "zone_kill ts m loc =
     \<lparr>timestamp = ts, server = ''Druzzil Ro'', player = ''Aradune'', guild = ''Former Glory'',
      monster = m, location = loc\<rparr>"

definition lockout_kill :: "string \<Rightarrow> string \<Rightarrow> boss_kill_message" where
  "lockout_kill ts m =
     \<lparr>timestamp = ts, server = [], player = [], guild = [], monster = m, location = ''Lockouts''\<rparr>"

text \<open>The state in which the buffer window of a name is open and holds the given events.\<close>

definition buffering :: "app \<Rightarrow> string \<Rightarrow> boss_kill_message list \<Rightarrow> app" where
  "buffering st k msgs =
     st\<lparr>message_buffer := (message_buffer st)(k \<mapsto> \<lparr>messages = msgs, processed = False\<rparr>)\<rparr>"

section \<open>Properties of the LogTailer\<close>












lemma read_new_lines_Some:
  "file_positions st f = Some p \<Longrightarrow> p \<le> length c \<Longrightarrow>
   read_new_lines st f (Some c) =
     (st\<lparr>file_positions := (file_positions st)(f \<mapsto> length c)\<rparr>, read_lines (drop p c))"
  by (simp add: read_new_lines_def Let_def)





lemma read_active_Some:
  "active_file st = Some f \<Longrightarrow> file_exists e f \<Longrightarrow>
   read_active e st = read_new_lines st f (file_content e f)"
  by (simp add: read_active_def)

text \<open>
  Claim C4, as the code has it. On a pass of \<open>_monitor_loop\<close> that looks for the active
  file and finds a file \<open>f\<close> other than the current one, if the end offset of \<open>f\<close> can
  be determined (\<open>pre\<close> is what \<open>f\<close> holds at that moment), the cursor of \<open>f\<close> is put at
  that end before anything is read: the pass emits only lines of what was appended to
  \<open>f\<close> afterwards (\<open>app\<close>), nothing of \<open>pre\<close> and nothing of any other file, and leaves
  the cursor at the end of \<open>f\<close>.
\<close>

theorem activation_seeks_to_end:
  assumes check: "active_file_check_counter st + 1 \<ge> 10 \<or> active_file st = None"
    and scan: "scan e = Some (Some f)"
    and change: "active_file st \<noteq> Some f"
    and eof: "end_of_file e f = Some (length pre)"
    and ex: "file_exists e f"
    and content: "file_content e f = Some (pre @ app)"
  shows "snd (monitor_iteration e st) = read_lines app
       \<and> active_file (fst (monitor_iteration e st)) = Some f
       \<and> file_positions (fst (monitor_iteration e st)) f = Some (length pre + length app)"
proof -
  let ?st1 = "activate e (st\<lparr>active_file_check_counter := 0\<rparr>) (Some f)"
  from change eof have act: "active_file ?st1 = Some f"
    and pos: "file_positions ?st1 f = Some (length pre)"
    by (auto simp: activate_def)
  from check scan have it: "monitor_iteration e st = read_active e ?st1"
    by (auto simp: monitor_iteration_def Let_def)
  from act ex content have "read_active e ?st1 = read_new_lines ?st1 f (Some (pre @ app))"
    by (simp add: read_active_Some)
  also from pos have "\<dots> = (?st1\<lparr>file_positions := (file_positions ?st1)(f \<mapsto> length (pre @ app))\<rparr>,
       read_lines (drop (length pre) (pre @ app)))"
    by (rule read_new_lines_Some) simp
  finally have "read_active e ?st1 = (?st1\<lparr>file_positions := (file_positions ?st1)(f \<mapsto> length (pre @ app))\<rparr>,
       read_lines app)" by simp
  with it act show ?thesis by simp
qed

text \<open>
  Claim C4 as stated fails: when opening the newly active file raises during
  activation, the position falls back to 0, and the first successful read emits the
  content the file already had.
\<close>

theorem activation_fallback_rereads_history:
  "snd (monitor_iteration
     \<lparr>scan = Some (Some ''eqlog_B_pq.txt''), end_of_file = (\<lambda>f. None),
      file_exists = (\<lambda>f. True), file_content = (\<lambda>f. Some (''old kill line'' @ [LF]))\<rparr>
     \<lparr>active_file = None, file_positions = Map.empty, active_file_check_counter = 0\<rparr>)
   = [''old kill line'']"
  by code_simp

text \<open>The theorem at a concrete switch from one log file to another.\<close>

theorem activation_seeks_to_end_witness:
  "snd (monitor_iteration
     \<lparr>scan = Some (Some ''eqlog_B_pq.txt''), end_of_file = (\<lambda>f. Some 14),
      file_exists = (\<lambda>f. True), file_content = (\<lambda>f. Some ((''old kill line'' @ [LF]) @ ''new'' @ [LF]))\<rparr>
     \<lparr>active_file = Some ''eqlog_A_pq.txt'', file_positions = [''eqlog_A_pq.txt'' \<mapsto> 7], active_file_check_counter = 9\<rparr>)
   = [''new'']"
proof -
  let ?e = "\<lparr>scan = Some (Some ''eqlog_B_pq.txt''), end_of_file = (\<lambda>f. Some (14::nat)),
      file_exists = (\<lambda>f. True), file_content = (\<lambda>f. Some ((''old kill line'' @ [LF]) @ ''new'' @ [LF]))\<rparr>"
  let ?st = "\<lparr>active_file = Some ''eqlog_A_pq.txt'', file_positions = [''eqlog_A_pq.txt'' \<mapsto> (7::nat)], active_file_check_counter = (9::nat)\<rparr>"
  have "snd (monitor_iteration ?e ?st) = read_lines (''new'' @ [LF])"
    using activation_seeks_to_end [of ?st ?e "''eqlog_B_pq.txt''" "''old kill line'' @ [LF]" "''new'' @ [LF]"]
    by simp
  also have "\<dots> = [''new'']" by code_simp
  finally show ?thesis .
qed

section \<open>Properties of the delivery worker\<close>







section \<open>Properties of the IngestGate\<close>

lemma on_new_log_line_seen:
  "md5 line \<in> recently_processed_lines st \<Longrightarrow> on_new_log_line md5 st line = st"
  by (simp add: on_new_log_line_def)

lemma on_new_log_line_fresh:
  "md5 line \<notin> recently_processed_lines st \<Longrightarrow>
   on_new_log_line md5 st line =
     st\<lparr>recently_processed_lines := insert (md5 line) (recently_processed_lines st),
        log_line_queue := log_line_queue st @ [line]\<rparr>"
  by (simp add: on_new_log_line_def)

lemma card_second_half:
  assumes "distinct es"
  shows "card (set (drop (length es div 2) es)) = length es - length es div 2"
proof -
  from assms have "distinct (drop (length es div 2) es)" by simp
  then have "card (set (drop (length es div 2) es)) = length (drop (length es div 2) es)"
    by (rule distinct_card)
  then show ?thesis by simp
qed

text \<open>
  Claim C8, as the code has it. A line whose hash is in \<open>recently_processed_lines\<close> is
  not queued: \<open>_on_new_log_line\<close> leaves the queue and the set as they are. When the
  clean-up runs on more than 2000 entries, what it keeps is the second half of the
  enumeration \<open>list(self.recently_processed_lines)\<close>: a subset of the old set, with
  \<open>n - n div 2\<close> of its \<open>n\<close> entries. Which entries these are depends on the set's
  iteration order, not on the order in which the lines were seen.
\<close>

theorem ingest_gate:
  assumes d: "distinct entries_list"
    and s: "set entries_list = recently_processed_lines st"
    and big: "card (recently_processed_lines st) > 2000"
    and seen: "md5 line \<in> recently_processed_lines st"
  shows "on_new_log_line md5 st line = st
       \<and> recently_processed_lines (cleanup_processed_lines entries_list st)
           = set (drop (length entries_list div 2) entries_list)
       \<and> recently_processed_lines (cleanup_processed_lines entries_list st) \<subseteq> recently_processed_lines st
       \<and> card (recently_processed_lines (cleanup_processed_lines entries_list st))
           = card (recently_processed_lines st) - card (recently_processed_lines st) div 2"
proof -
  from d s have len: "card (recently_processed_lines st) = length entries_list"
    using distinct_card by fastforce
  from big have r: "recently_processed_lines (cleanup_processed_lines entries_list st)
           = set (drop (length entries_list div 2) entries_list)"
    by (simp add: cleanup_processed_lines_def)
  have sub: "set (drop (length entries_list div 2) entries_list) \<subseteq> recently_processed_lines st"
    using s set_drop_subset by fastforce
  from d have c: "card (set (drop (length entries_list div 2) entries_list))
      = length entries_list - length entries_list div 2" by (rule card_second_half)
  from seen have "on_new_log_line md5 st line = st" by (rule on_new_log_line_seen)
  with r sub c len show ?thesis by simp
qed


text \<open>
  Claim C8 as stated fails. Let 2001 hashes be numbered in their order of arrival,
  \<open>0\<close> the oldest and \<open>2000\<close> the newest, and let the set enumerate them in the
  opposite order: the clean-up keeps the oldest and drops the newest.
\<close>

theorem eviction_drops_newest:
  "(2000::nat) \<notin> recently_processed_lines
      (cleanup_processed_lines (rev [0..<2001])
         \<lparr>recently_processed_lines = set [0..<2001], log_line_queue = []\<rparr>)
   \<and> (0::nat) \<in> recently_processed_lines
      (cleanup_processed_lines (rev [0..<2001])
         \<lparr>recently_processed_lines = set [0..<2001], log_line_queue = []\<rparr>)"
proof -
  have "drop (length (rev [0..<2001::nat]) div 2) (rev [0..<2001]) = rev (take 1001 [0..<2001])"
    by (simp add: drop_rev del: upt_rec_numeral)
  then have "set (drop (length (rev [0..<2001::nat]) div 2) (rev [0..<2001])) = {0..<1001}"
    by (simp del: upt_rec_numeral)
  then show ?thesis by (simp add: cleanup_processed_lines_def del: upt_rec_numeral)
qed

text \<open>The theorem on a history of 2001 entries and a line already seen.\<close>

theorem ingest_gate_witness:
  "on_new_log_line length \<lparr>recently_processed_lines = set [0..<2001], log_line_queue = []\<rparr> ''abc''
     = \<lparr>recently_processed_lines = set [0..<2001], log_line_queue = []\<rparr>
   \<and> card (recently_processed_lines (cleanup_processed_lines [0..<2001]
         \<lparr>recently_processed_lines = set [0..<2001], log_line_queue = []\<rparr>)) = 1001"
  using ingest_gate [of "[0..<2001]" "\<lparr>recently_processed_lines = set [0..<2001], log_line_queue = []\<rparr>" length "''abc''"]
  by (simp del: upt_rec_numeral)

section \<open>Properties of the pipeline\<close>

subsection \<open>What \<open>_process_boss_kill\<close> does\<close>

lemma dropWhile_hd: "xs \<noteq> [] \<Longrightarrow> \<not> P (hd xs) \<Longrightarrow> dropWhile P xs = xs"
  by (cases xs) auto

lemma dropWhile_not_hd: "dropWhile P xs \<noteq> [] \<Longrightarrow> \<not> P (hd (dropWhile P xs))"
  by (simp add: hd_dropWhile)

lemma strip_strip: "strip (strip s) = strip s"
proof (cases "strip s = []")
  case True
  have "strip [] = []" by (simp add: strip_def)
  with True show ?thesis by simp
next
  case False
  define t where "t = dropWhile is_space s"
  define r where "r = dropWhile is_space (rev t)"
  have u: "strip s = rev r" by (simp add: strip_def r_def t_def)
  with False have r: "r \<noteq> []" by simp
  have t: "t \<noteq> []"
  proof
    assume "t = []"
    then have "r = []" by (simp add: r_def)
    with r show False by simp
  qed
  from r have nl: "\<not> is_space (hd r)" unfolding r_def by (rule dropWhile_not_hd)
  from t have nh: "\<not> is_space (hd t)" unfolding t_def by (rule dropWhile_not_hd)
  have "rev t = takeWhile is_space (rev t) @ r" by (simp add: r_def)
  then have "rev (rev t) = rev (takeWhile is_space (rev t) @ r)" by simp
  then have "t = rev r @ rev (takeWhile is_space (rev t))" by simp
  then have "hd t = hd (rev r @ rev (takeWhile is_space (rev t)))" by simp
  with r have "hd (rev r) = hd t" by simp
  with nh have "\<not> is_space (hd (rev r))" by simp
  with r have a: "dropWhile is_space (rev r) = rev r" by (simp add: dropWhile_hd)
  from r nl have b: "dropWhile is_space r = r" by (simp add: dropWhile_hd)
  have "strip (rev r) = rev (dropWhile is_space (rev (dropWhile is_space (rev r))))"
    by (simp add: strip_def)
  also have "\<dots> = rev r" by (simp add: a b)
  finally show ?thesis by (simp add: u)
qed

lemma notify_Some:
  "strip w \<noteq> [] \<Longrightarrow> notify d message (Some (strip w)) q = q @ [Some (strip w, message)]"
  by (simp add: notify_def strip_strip)

lemma post_cooldown_record_kill [simp]:
  "post_cooldown e (record_kill e st parsed) k = post_cooldown e st k"
  by (simp add: post_cooldown_def record_kill_def Let_def split: option.splits)

lemma record_kill_fields [simp]:
  "bosses (record_kill e st parsed) = bosses st"
  "notifier_queue (record_kill e st parsed) = notifier_queue st"
  "activity (record_kill e st parsed) = activity st"
  "selection_requests (record_kill e st parsed) = selection_requests st"
  by (simp_all add: record_kill_def Let_def split: option.splits)

lemma process_boss_kill_posts:
  assumes "will_post e st parsed"
  shows "process_boss_kill e st parsed boss =
    (let message = format_message e
           (if location parsed = ''Lockouts'' then lockout_message_template e else message_template e)
           parsed (strip (boss_note (bosses st ! boss)));
         st1 = record_kill e st parsed
     in add_activity_entry
          (st1\<lparr>last_discord_post_time_by_monster :=
                 (last_discord_post_time_by_monster st1)(lower (monster parsed) \<mapsto> time_at_post e),
               notifier_queue := notifier_queue st @ [Some (get_webhook_url_for_post e 2, message)],
               bosses := increment_kill_count (strptime e) (bosses st) (timestamp parsed) boss\<rparr>)
          parsed Posted True (Some message))"
proof -
  from assms have w2: "strip (webhook_setting e 2) \<noteq> []"
    by (simp add: will_post_def get_webhook_url_for_post_def)
  have n: "\<And>m q. notify None m (Some (get_webhook_url_for_post e 2)) q
      = q @ [Some (get_webhook_url_for_post e 2, m)]"
    unfolding get_webhook_url_for_post_def using w2 by (rule notify_Some)
  from assms show ?thesis
    by (simp add: will_post_def process_boss_kill_def Let_def n)
qed

lemma process_boss_kill_skips:
  assumes "\<not> will_post e st parsed"
  shows "\<exists>s. s \<noteq> Posted \<and> process_boss_kill e st parsed boss =
      add_activity_entry
        (if kill_key parsed \<in> recently_processed_kills st \<or> recent_duplicate e st parsed \<noteq> None
         then st else record_kill e st parsed)
        parsed s False None"
  using assms
  by (auto simp: will_post_def process_boss_kill_def Let_def split: option.splits)

subsection \<open>Two kills of the same name\<close>



lemma activity_add [simp]:
  "activity (add_activity_entry st p s b m) =
     activity st @ [\<lparr>entry_message = p, entry_status = s, entry_posted = b, entry_discord_message = m\<rparr>]"
  "bosses (add_activity_entry st p s b m) = bosses st"
  "notifier_queue (add_activity_entry st p s b m) = notifier_queue st"
  "selection_requests (add_activity_entry st p s b m) = selection_requests st"
  "recently_processed_kills (add_activity_entry st p s b m) = recently_processed_kills st"
  "recent_kills_by_monster (add_activity_entry st p s b m) = recent_kills_by_monster st"
  "last_discord_post_time_by_monster (add_activity_entry st p s b m) = last_discord_post_time_by_monster st"
  by (simp_all add: add_activity_entry_def)





subsection \<open>What \<open>_process_buffered_messages\<close> does\<close>

lemma exists_iff: "exists bs n = (get_bosses_by_name bs n \<noteq> [])"
proof
  assume "exists bs n"
  then obtain b where b: "b \<in> set bs" "lower (name b) = lower n"
    by (auto simp: exists_def list_ex_iff)
  then obtain i where i: "i < length bs" "bs ! i = b" by (auto simp: in_set_conv_nth)
  with b have "i \<in> set (get_bosses_by_name bs n)" by (simp add: get_bosses_by_name_def)
  then show "get_bosses_by_name bs n \<noteq> []" by auto
next
  assume "get_bosses_by_name bs n \<noteq> []"
  then obtain i where "i \<in> set (get_bosses_by_name bs n)" by (cases "get_bosses_by_name bs n") auto
  then have "i < length bs" "lower (name (bs ! i)) = lower n" by (simp_all add: get_bosses_by_name_def)
  then have "bs ! i \<in> set bs \<and> lower (name (bs ! i)) = lower n" by simp
  then show "exists bs n" unfolding exists_def list_ex_iff by blast
qed

lemma get_bosses_by_name_valid: "b \<in> set (get_bosses_by_name bs n) \<Longrightarrow> b < length bs"
  by (simp add: get_bosses_by_name_def)

lemma dialog_needed_exists: "dialog_needed bs n \<Longrightarrow> exists bs n"
  by (auto simp: dialog_needed_def exists_iff)

lemma foldl_audit:
  "foldl (\<lambda>s skipped. add_activity_entry s skipped (Skipped_by_buffer l) False None) st ms
     = st\<lparr>activity := activity st @ map (skip_entry l) ms\<rparr>"
  by (induction ms arbitrary: st) (simp_all add: add_activity_entry_def skip_entry_def)

lemma flushed_fields [simp]:
  "bosses (flushed st k b sel) = bosses st"
  "notifier_queue (flushed st k b sel) = notifier_queue st"
  "selection_requests (flushed st k b sel) = selection_requests st"
  "active_duplicate_dialogs (flushed st k b sel) = active_duplicate_dialogs st"
  "recently_processed_kills (flushed st k b sel) = recently_processed_kills st"
  "deferred (flushed st k b sel) = deferred st"
  "activity (flushed st k b sel) = activity st @
      map (skip_entry (location sel)) (filter (\<lambda>msg. msg \<noteq> sel) (messages b))"
  by (simp_all add: flushed_def)

lemma process_buffered_messages_open:
  assumes "message_buffer st k = Some buffer_data" "\<not> processed buffer_data"
    and "select_message (messages buffer_data) = Some sel"
  shows "process_buffered_messages e st k =
     (if \<not> exists (bosses st) (monster sel)
      then handle_new_boss e
             (add_activity_entry
                ((flushed st k buffer_data sel)\<lparr>pending_boss_kills :=
                    (pending_boss_kills st)(lower (monster sel) \<mapsto> sel)\<rparr>)
                sel New_boss_detected False None) sel
      else resolve_and_process e (flushed st k buffer_data sel) sel)"
  using assms
  by (simp add: process_buffered_messages_def Let_def foldl_audit flushed_def)


lemma increment_kill_count_length [simp]:
  "length (increment_kill_count sp bs ts b) = length bs"
  by (simp add: increment_kill_count_def Let_def)

lemma sum_list_map_update:
  "i < length xs \<Longrightarrow> sum_list (map f (xs[i := y])) + f (xs ! i) = sum_list (map f xs) + (f y :: nat)"
proof (induction xs arbitrary: i)
  case Nil
  then show ?case by simp
next
  case (Cons x xs)
  then show ?case by (cases i) auto
qed

lemma increment_kill_count_kills:
  assumes "b < length bs"
  shows "kills_recorded (increment_kill_count sp bs ts b) = kills_recorded bs + 1"
proof -
  obtain y where y: "increment_kill_count sp bs ts b = bs[b := y]"
    and k: "kill_count y = kill_count (bs ! b) + 1"
    using assms by (auto simp: increment_kill_count_def Let_def split: option.splits)
  from sum_list_map_update [OF assms, of kill_count y] k
  show ?thesis by (simp add: kills_recorded_def y)
qed

lemma process_boss_kill_cases:
  assumes "b < length (bosses st)"
  shows "(\<exists>s. s \<noteq> Posted \<and> notifier_queue (process_boss_kill e st p b) = notifier_queue st
            \<and> bosses (process_boss_kill e st p b) = bosses st
            \<and> activity (process_boss_kill e st p b) = activity st @
                 [\<lparr>entry_message = p, entry_status = s, entry_posted = False, entry_discord_message = None\<rparr>])
       \<or> (\<exists>x m. notifier_queue (process_boss_kill e st p b) = notifier_queue st @ [x]
            \<and> bosses (process_boss_kill e st p b) = increment_kill_count (strptime e) (bosses st) (timestamp p) b
            \<and> activity (process_boss_kill e st p b) = activity st @
                 [\<lparr>entry_message = p, entry_status = Posted, entry_posted = True, entry_discord_message = Some m\<rparr>])"
proof (cases "will_post e st p")
  case True
  from process_boss_kill_posts [OF True, of b] show ?thesis
    by (simp add: Let_def)
next
  case False
  from process_boss_kill_skips [OF False, of b] obtain s where s: "s \<noteq> Posted"
    and eq: "process_boss_kill e st p b = add_activity_entry
        (if kill_key p \<in> recently_processed_kills st \<or> recent_duplicate e st p \<noteq> None
         then st else record_kill e st p) p s False None"
    by blast
  have "notifier_queue (process_boss_kill e st p b) = notifier_queue st"
    "bosses (process_boss_kill e st p b) = bosses st"
    "activity (process_boss_kill e st p b) = activity st @
        [\<lparr>entry_message = p, entry_status = s, entry_posted = False, entry_discord_message = None\<rparr>]"
    unfolding eq by simp_all
  with s show ?thesis by blast
qed

lemma process_boss_kill_frame [simp]:
  "selection_requests (process_boss_kill e st p b) = selection_requests st"
proof (cases "will_post e st p")
  case True
  from process_boss_kill_posts [OF True, of b] show ?thesis by (simp add: Let_def)
next
  case False
  from process_boss_kill_skips [OF False, of b] show ?thesis by auto
qed

text \<open>The outcome of a step on a name the registry knows, in terms of the two endings.\<close>

lemma untouchedI:
  assumes "notifier_queue st' = notifier_queue st" "bosses st' = bosses st"
    and "activity st' = activity st @ ys" "\<not> list_ex entry_posted ys"
  shows "untouched st st'"
  using assms by (simp add: untouched_def new_entries_def)

lemma posted_onceI:
  assumes "notifier_queue st' = notifier_queue st @ [x]"
    and "bosses st' = increment_kill_count sp (bosses st) ts b" "b < length (bosses st)"
    and "activity st' = activity st @ ys" "list_ex entry_posted ys"
  shows "posted_once st st'"
  using assms by (simp add: posted_once_def new_entries_def dispatched_def increment_kill_count_kills)


lemma ends_after_silent:
  assumes "notifier_queue st1 = notifier_queue st" "bosses st1 = bosses st"
    and "activity st1 = activity st @ xs" "\<not> list_ex entry_posted xs"
  shows "untouched st1 st' \<Longrightarrow> untouched st st'"
    and "posted_once st1 st' \<Longrightarrow> posted_once st st'"
proof -
  have split: "activity st' = activity st @ xs @ new_entries st1 st'
      \<and> new_entries st st' = xs @ new_entries st1 st'"
    if "take (length (activity st1)) (activity st') = activity st1"
  proof -
    have "activity st' = take (length (activity st1)) (activity st') @ drop (length (activity st1)) (activity st')"
      by simp
    with that have a: "activity st' = activity st1 @ new_entries st1 st'"
      by (simp add: new_entries_def)
    with assms(3) have b: "activity st' = activity st @ xs @ new_entries st1 st'" by simp
    then have "drop (length (activity st)) (activity st') = xs @ new_entries st1 st'" by simp
    with b show ?thesis by (simp add: new_entries_def)
  qed
  show "untouched st1 st' \<Longrightarrow> untouched st st'"
  proof -
    assume u: "untouched st1 st'"
    then have "take (length (activity st1)) (activity st') = activity st1" by (simp add: untouched_def)
    from split [OF this] u assms show ?thesis
      by (simp add: untouched_def)
  qed
  show "posted_once st1 st' \<Longrightarrow> posted_once st st'"
  proof -
    assume u: "posted_once st1 st'"
    then have "take (length (activity st1)) (activity st') = activity st1" by (simp add: posted_once_def)
    from split [OF this] u assms show ?thesis
      by (simp add: posted_once_def dispatched_def)
  qed
qed

lemma process_boss_kill_ends:
  assumes "b < length (bosses st)"
  shows "untouched st (process_boss_kill e st p b) \<or> posted_once st (process_boss_kill e st p b)"
  using process_boss_kill_cases [OF assms, of e p]
proof (elim disjE exE conjE)
  fix s assume "s \<noteq> Posted"
    "notifier_queue (process_boss_kill e st p b) = notifier_queue st"
    "bosses (process_boss_kill e st p b) = bosses st"
    "activity (process_boss_kill e st p b) = activity st @
       [\<lparr>entry_message = p, entry_status = s, entry_posted = False, entry_discord_message = None\<rparr>]"
  then have "untouched st (process_boss_kill e st p b)"
    by (intro untouchedI [where ys = "[\<lparr>entry_message = p, entry_status = s, entry_posted = False,
         entry_discord_message = None\<rparr>]"]) (simp_all add: list_ex_iff)
  then show ?thesis ..
next
  fix x m assume "notifier_queue (process_boss_kill e st p b) = notifier_queue st @ [x]"
    "bosses (process_boss_kill e st p b) = increment_kill_count (strptime e) (bosses st) (timestamp p) b"
    "activity (process_boss_kill e st p b) = activity st @
       [\<lparr>entry_message = p, entry_status = Posted, entry_posted = True, entry_discord_message = Some m\<rparr>]"
  with assms have "posted_once st (process_boss_kill e st p b)"
    by (intro posted_onceI [where ys = "[\<lparr>entry_message = p, entry_status = Posted, entry_posted = True,
         entry_discord_message = Some m\<rparr>]" and x = x and b = b and sp = "strptime e" and ts = "timestamp p"])
       (simp_all add: list_ex_iff)
  then show ?thesis ..
qed

lemma untouched_refl: "untouched st st"
  by (simp add: untouched_def new_entries_def list_ex_iff)

lemma untouched_audit: "untouched st (add_activity_entry st p s False m)"
  by (rule untouchedI [where ys = "[\<lparr>entry_message = p, entry_status = s, entry_posted = False, entry_discord_message = m\<rparr>]"]) (simp_all add: list_ex_iff)

lemma process_resolved_ends:
  assumes "b < length (bosses st)"
  shows "untouched st (process_resolved e st sel all b) \<or> posted_once st (process_resolved e st sel all b)"
  using process_boss_kill_ends [OF assms, of e sel]
  by (simp add: process_resolved_def Let_def untouched_refl untouched_audit)

lemma handle_duplicate_boss_selection_in:
  "handle_duplicate_boss_selection r cands = Inr (Some b) \<Longrightarrow> b \<in> set cands"
  by (auto simp: handle_duplicate_boss_selection_def split: dialog_result.splits option.splits list.splits if_splits)


lemma requested_fields [simp]:
  "bosses (requested st sel) = bosses st"
  "notifier_queue (requested st sel) = notifier_queue st"
  "activity (requested st sel) = activity st"
  "recently_processed_kills (requested st sel) = recently_processed_kills st"
  "deferred (requested st sel) = deferred st"
  "selection_requests (requested st sel) = selection_requests st @
         [(monster sel, get_bosses_by_name (bosses st) (monster sel))]"
  by (simp_all add: requested_def)

lemma resolve_dialog:
  assumes "dialog_needed (bosses st) (monster sel)"
    and "lower (monster sel) \<notin> active_duplicate_dialogs st"
  shows "resolve_and_process e st sel =
     (case handle_duplicate_boss_selection (dialog e) (get_bosses_by_name (bosses st) (monster sel)) of
        Inl err \<Rightarrow> requested st sel
      | Inr None \<Rightarrow> add_activity_entry (requested st sel) sel Cancelled False None
      | Inr (Some boss) \<Rightarrow>
          process_resolved e (requested st sel) sel (get_bosses_by_name (bosses st) (monster sel)) boss)"
proof -
  from assms(2) have "insert (lower (monster sel)) (active_duplicate_dialogs st) - {lower (monster sel)}
      = active_duplicate_dialogs st" by simp
  moreover have "(requested st sel)\<lparr>active_duplicate_dialogs := active_duplicate_dialogs st\<rparr>
      = requested st sel" by (simp add: requested_def)
  moreover have "st\<lparr>selection_requests := selection_requests st @
         [(monster sel, get_bosses_by_name (bosses st) (monster sel))]\<rparr> = requested st sel"
    by (simp add: requested_def)
  ultimately show ?thesis using assms
    by (simp add: resolve_and_process_def dialog_needed_def Let_def)
qed

lemma resolve_dialog_busy:
  assumes "dialog_needed (bosses st) (monster sel)"
    and "lower (monster sel) \<in> active_duplicate_dialogs st"
  shows "resolve_and_process e st sel = st"
  using assms by (simp add: resolve_and_process_def dialog_needed_def Let_def)

lemma resolve_no_dialog:
  assumes "\<not> dialog_needed (bosses st) (monster sel)"
  shows "resolve_and_process e st sel =
     (if length (get_bosses_by_name (bosses st) (monster sel)) = 1
      then process_resolved e st sel (get_bosses_by_name (bosses st) (monster sel))
             (hd (get_bosses_by_name (bosses st) (monster sel)))
      else add_activity_entry st sel Boss_not_found False None)"
  using assms unfolding resolve_and_process_def dialog_needed_def Let_def
  by (cases "1 < length (get_bosses_by_name (bosses st) (monster sel))") auto

lemma process_resolved_frame [simp]:
  "selection_requests (process_resolved e st sel all b) = selection_requests st"
  by (simp add: process_resolved_def Let_def)

lemma resolve_and_process_requests:
  "selection_requests (resolve_and_process e st sel) = selection_requests st @
     (if dialog_needed (bosses st) (monster sel) \<and> lower (monster sel) \<notin> active_duplicate_dialogs st
      then [(monster sel, get_bosses_by_name (bosses st) (monster sel))] else [])"
proof (cases "dialog_needed (bosses st) (monster sel)")
  case False
  then show ?thesis by (simp add: resolve_no_dialog)
next
  case need: True
  show ?thesis
  proof (cases "lower (monster sel) \<in> active_duplicate_dialogs st")
    case True
    with need show ?thesis by (simp add: resolve_dialog_busy)
  next
    case False
    with need show ?thesis
      by (simp add: resolve_dialog split: sum.split option.split)
  qed
qed

lemma resolve_and_process_ends:
  "untouched st (resolve_and_process e st sel) \<or> posted_once st (resolve_and_process e st sel)"
proof (cases "dialog_needed (bosses st) (monster sel)")
  case False
  show ?thesis
  proof (cases "length (get_bosses_by_name (bosses st) (monster sel)) = 1")
    case True
    then have "hd (get_bosses_by_name (bosses st) (monster sel)) \<in> set (get_bosses_by_name (bosses st) (monster sel))"
      by (cases "get_bosses_by_name (bosses st) (monster sel)") auto
    then have "hd (get_bosses_by_name (bosses st) (monster sel)) < length (bosses st)"
      by (rule get_bosses_by_name_valid)
    from process_resolved_ends [OF this] False True show ?thesis
      by (simp add: resolve_no_dialog)
  next
    case F: False
    with False show ?thesis by (simp add: resolve_no_dialog untouched_audit)
  qed
next
  case need: True
  show ?thesis
  proof (cases "lower (monster sel) \<in> active_duplicate_dialogs st")
    case True
    with need show ?thesis by (simp add: resolve_dialog_busy untouched_refl)
  next
    case False
    note eq = resolve_dialog [OF need False, of e]
    let ?all = "get_bosses_by_name (bosses st) (monster sel)"
    let ?r = "requested st sel"
    have silent: "notifier_queue ?r = notifier_queue st" "bosses ?r = bosses st"
      "activity ?r = activity st @ []" "\<not> list_ex entry_posted []" by simp_all
    show ?thesis
    proof (cases "handle_duplicate_boss_selection (dialog e) ?all")
      case (Inl err)
      with eq have "resolve_and_process e st sel = ?r" by simp
      moreover have "untouched st ?r"
        by (rule untouchedI [where ys = "[]"]) simp_all
      ultimately show ?thesis by simp
    next
      case (Inr choice)
      show ?thesis
      proof (cases choice)
        case None
        with Inr eq have "resolve_and_process e st sel = add_activity_entry ?r sel Cancelled False None"
          by simp
        moreover have "untouched st (add_activity_entry ?r sel Cancelled False None)"
          by (rule untouchedI [where ys = "[\<lparr>entry_message = sel, entry_status = Cancelled,
                entry_posted = False, entry_discord_message = None\<rparr>]"]) (simp_all add: list_ex_iff)
        ultimately show ?thesis by simp
      next
        case (Some boss)
        with Inr have "boss \<in> set ?all" by (simp add: handle_duplicate_boss_selection_in)
        then have "boss < length (bosses ?r)" by (simp add: get_bosses_by_name_valid)
        from process_resolved_ends [OF this, of e sel ?all]
        have "untouched st (process_resolved e ?r sel ?all boss)
            \<or> posted_once st (process_resolved e ?r sel ?all boss)"
          using ends_after_silent [OF silent] by blast
        with Some Inr eq show ?thesis by simp
      qed
    qed
  qed
qed

subsection \<open>Dispatch and registry bookkeeping\<close>

lemma get_boss_None: "\<not> exists bs n \<Longrightarrow> get_boss bs n = None"
  by (simp add: exists_iff get_boss_def)

lemma add_boss_new:
  "\<not> exists bs n \<Longrightarrow> add_boss bs n loc en =
     (bs @ [\<lparr>name = n, boss_location = loc, boss_note = [], enabled = en,
              kill_count = 0, last_killed = None, last_killed_timestamp = None\<rparr>], length bs)"
  by (simp add: add_boss_def get_boss_None)

lemma handle_new_boss_ends:
  assumes "\<not> exists (bosses st) (monster sel)"
  shows "untouched st (handle_new_boss e st sel)"
    and "selection_requests (handle_new_boss e st sel) = selection_requests st"
  using assms
  by (auto simp: handle_new_boss_def add_new_boss_def add_boss_new Let_def untouched_def
        new_entries_def kills_recorded_def list_ex_iff split: option.splits)




subsection \<open>Names with several registry entries\<close>

lemma process_buffered_messages_known:
  assumes "message_buffer st k = Some buffer_data" "\<not> processed buffer_data"
    and "select_message (messages buffer_data) = Some sel"
    and "exists (bosses st) (monster sel)"
  shows "process_buffered_messages e st k = resolve_and_process e (flushed st k buffer_data sel) sel"
  using process_buffered_messages_open [OF assms(1-3), of e] assms(4) by simp

text \<open>
  Claim C3. A buffer window closes with \<open>sel\<close> selected; the name of \<open>sel\<close> has several
  entries for which the selection dialog is asked, and the dialog gives no selection
  (it is rejected, or accepted with nothing chosen). Then nothing is put on the
  delivery queue, the registry is unchanged (no kill is counted, no kill time set), the
  kill key is not recorded, no call of \<open>_process_boss_kill\<close> is scheduled, and the audit
  trail ends with the entry "Kill detected but cancelled (duplicate name selection)"
  for \<open>sel\<close>, after the entries for the skipped messages of the window.
\<close>

theorem cancelled_selection_stops_kill:
  assumes buf: "message_buffer st k = Some buffer_data" "\<not> processed buffer_data"
    and sel: "select_message (messages buffer_data) = Some sel"
    and need: "dialog_needed (bosses st) (monster sel)"
    and free: "lower (monster sel) \<notin> active_duplicate_dialogs st"
    and cancel: "handle_duplicate_boss_selection (dialog e)
                   (get_bosses_by_name (bosses st) (monster sel)) = Inr None"
    and st': "st' = process_buffered_messages e st k"
  shows "notifier_queue st' = notifier_queue st
       \<and> bosses st' = bosses st
       \<and> recently_processed_kills st' = recently_processed_kills st
       \<and> deferred st' = deferred st
       \<and> activity st' = activity st
            @ map (skip_entry (location sel)) (filter (\<lambda>msg. msg \<noteq> sel) (messages buffer_data))
            @ [\<lparr>entry_message = sel, entry_status = Cancelled, entry_posted = False,
                entry_discord_message = None\<rparr>]"
proof -
  let ?f = "flushed st k buffer_data sel"
  from need have ex: "exists (bosses st) (monster sel)" by (rule dialog_needed_exists)
  from need have need': "dialog_needed (bosses ?f) (monster sel)" by simp
  from free have free': "lower (monster sel) \<notin> active_duplicate_dialogs ?f" by simp
  from cancel have cancel': "handle_duplicate_boss_selection (dialog e)
                   (get_bosses_by_name (bosses ?f) (monster sel)) = Inr None" by simp
  have "st' = resolve_and_process e ?f sel"
    unfolding st' using buf sel ex by (rule process_buffered_messages_known)
  also have "\<dots> = add_activity_entry (requested ?f sel) sel Cancelled False None"
    using resolve_dialog [OF need' free', of e] cancel' by simp
  finally have "st' = add_activity_entry (requested ?f sel) sel Cancelled False None" .
  then show ?thesis by (simp add: add_activity_entry_def)
qed

text \<open>
  The theorem on a kill of Thall Va Xakra, tracked as "F1 North" and "F1 South", with
  the dialog rejected.
\<close>

theorem cancelled_selection_stops_kill_witness:
  "dispatched (process_buffered_messages (scenario_env 100 Rejected)
      (buffering (scenario_app [tracked ''Thall Va Xakra'' ''Vex Thal'' ''F1 North'',
                                tracked ''Thall Va Xakra'' ''Vex Thal'' ''F1 South''])
         ''thall va xakra'' [zone_kill ''Sat Feb 07 12:00:00 2026'' ''Thall Va Xakra'' ''Vex Thal''])
      ''thall va xakra'') = 0
   \<and> kills_recorded (bosses (process_buffered_messages (scenario_env 100 Rejected)
      (buffering (scenario_app [tracked ''Thall Va Xakra'' ''Vex Thal'' ''F1 North'',
                                tracked ''Thall Va Xakra'' ''Vex Thal'' ''F1 South''])
         ''thall va xakra'' [zone_kill ''Sat Feb 07 12:00:00 2026'' ''Thall Va Xakra'' ''Vex Thal''])
      ''thall va xakra'')) = 0
   \<and> map entry_status (activity (process_buffered_messages (scenario_env 100 Rejected)
      (buffering (scenario_app [tracked ''Thall Va Xakra'' ''Vex Thal'' ''F1 North'',
                                tracked ''Thall Va Xakra'' ''Vex Thal'' ''F1 South''])
         ''thall va xakra'' [zone_kill ''Sat Feb 07 12:00:00 2026'' ''Thall Va Xakra'' ''Vex Thal''])
      ''thall va xakra'')) = [Cancelled]"
proof -
  let ?reg = "[tracked ''Thall Va Xakra'' ''Vex Thal'' ''F1 North'',
               tracked ''Thall Va Xakra'' ''Vex Thal'' ''F1 South'']"
  let ?m = "zone_kill ''Sat Feb 07 12:00:00 2026'' ''Thall Va Xakra'' ''Vex Thal''"
  let ?st = "buffering (scenario_app ?reg) ''thall va xakra'' [?m]"
  let ?e = "scenario_env 100 Rejected"
  let ?b = "\<lparr>messages = [?m], processed = False\<rparr>"
  have h1: "message_buffer ?st ''thall va xakra'' = Some ?b" by (simp add: buffering_def)
  have h2: "\<not> processed ?b" by simp
  have h3: "select_message (messages ?b) = Some ?m" by code_simp
  have h4: "dialog_needed (bosses ?st) (monster ?m)" by code_simp
  have h5: "lower (monster ?m) \<notin> active_duplicate_dialogs ?st"
    by (simp add: buffering_def scenario_app_def)
  have h6: "handle_duplicate_boss_selection (dialog ?e) (get_bosses_by_name (bosses ?st) (monster ?m))
      = Inr None"
    by (simp add: handle_duplicate_boss_selection_def scenario_env_def)
  have z: "notifier_queue ?st = []" "kills_recorded (bosses ?st) = 0" "activity ?st = []"
    by (simp_all add: buffering_def scenario_app_def kills_recorded_def tracked_def)
  have f: "filter (\<lambda>msg. msg \<noteq> ?m) (messages ?b) = []" by simp
  from cancelled_selection_stops_kill [OF h1 h2 h3 h4 h5 h6 refl] z f
  show ?thesis by (simp add: dispatched_def)
qed

text \<open>
  Claim C5, as the code has it. When a buffer window closes with \<open>sel\<close> selected, the
  selection dialog is asked exactly once, with all entries of the registry whose
  name is that of \<open>sel\<close> in lower case, if there are several such entries, at least
  two of them carry a note or the name is one of \<open>duplicate_boss_names\<close>, and no
  dialog for the name is open. In every other case it is not asked.
\<close>

theorem selection_dialog_asked_once:
  assumes buf: "message_buffer st k = Some buffer_data" "\<not> processed buffer_data"
    and sel: "select_message (messages buffer_data) = Some sel"
  shows "selection_requests (process_buffered_messages e st k) = selection_requests st @
     (if dialog_needed (bosses st) (monster sel) \<and> lower (monster sel) \<notin> active_duplicate_dialogs st
      then [(monster sel, get_bosses_by_name (bosses st) (monster sel))] else [])"
proof (cases "exists (bosses st) (monster sel)")
  case True
  from process_buffered_messages_known [OF buf sel True, of e]
  show ?thesis by (simp add: resolve_and_process_requests)
next
  case False
  then have nn: "\<not> dialog_needed (bosses st) (monster sel)"
    using dialog_needed_exists by blast
  let ?n = "add_activity_entry
      ((flushed st k buffer_data sel)\<lparr>pending_boss_kills :=
          (pending_boss_kills st)(lower (monster sel) \<mapsto> sel)\<rparr>)
      sel New_boss_detected False None"
  from False have "\<not> exists (bosses ?n) (monster sel)" by simp
  from handle_new_boss_ends(2) [OF this, of e]
  have "selection_requests (handle_new_boss e ?n sel) = selection_requests st" by simp
  with process_buffered_messages_open [OF buf sel, of e] False nn show ?thesis by simp
qed

text \<open>The theorem on the same kill of Thall Va Xakra: one request, with both entries.\<close>

theorem selection_dialog_asked_once_witness:
  "selection_requests (process_buffered_messages (scenario_env 100 (Accepted (Some 0)))
      (buffering (scenario_app [tracked ''Thall Va Xakra'' ''Vex Thal'' ''F1 North'',
                                tracked ''Thall Va Xakra'' ''Vex Thal'' ''F1 South''])
         ''thall va xakra'' [zone_kill ''Sat Feb 07 12:00:00 2026'' ''Thall Va Xakra'' ''Vex Thal''])
      ''thall va xakra'') = [(''Thall Va Xakra'', [0, 1])]"
proof -
  let ?reg = "[tracked ''Thall Va Xakra'' ''Vex Thal'' ''F1 North'',
               tracked ''Thall Va Xakra'' ''Vex Thal'' ''F1 South'']"
  let ?m = "zone_kill ''Sat Feb 07 12:00:00 2026'' ''Thall Va Xakra'' ''Vex Thal''"
  let ?st = "buffering (scenario_app ?reg) ''thall va xakra'' [?m]"
  let ?b = "\<lparr>messages = [?m], processed = False\<rparr>"
  have h1: "message_buffer ?st ''thall va xakra'' = Some ?b" by (simp add: buffering_def)
  have h2: "\<not> processed ?b" by simp
  have h3: "select_message (messages ?b) = Some ?m" by code_simp
  have h4: "dialog_needed (bosses ?st) (monster ?m)" by code_simp
  have h5: "lower (monster ?m) \<notin> active_duplicate_dialogs ?st"
    by (simp add: buffering_def scenario_app_def)
  have c: "get_bosses_by_name (bosses ?st) ''Thall Va Xakra'' = [0, 1]" by code_simp
  have n: "monster ?m = ''Thall Va Xakra''" by (simp add: zone_kill_def)
  have z: "selection_requests ?st = []" by (simp add: buffering_def scenario_app_def)
  from selection_dialog_asked_once [OF h1 h2 h3, of "scenario_env 100 (Accepted (Some 0))"] h4 h5
  show ?thesis by (simp only: c n z if_True simp_thms append_Nil)
qed

text \<open>
  Claim C5 as stated fails: Lord Nagafen is tracked twice, once under its zone and once
  under "Lockouts", without notes. The name matches two entries, yet the dialog is not
  asked (and the kill ends as "Error: Boss not found or selection cancelled").
\<close>

theorem two_entries_without_dialog:
  "length (get_bosses_by_name
      [tracked ''Lord Nagafen'' ''Nagafens Lair'' [], tracked ''Lord Nagafen'' ''Lockouts'' []]
      ''Lord Nagafen'') = 2
   \<and> selection_requests (process_buffered_messages (scenario_env 100 (Accepted (Some 0)))
      (buffering (scenario_app [tracked ''Lord Nagafen'' ''Nagafens Lair'' [],
                                tracked ''Lord Nagafen'' ''Lockouts'' []])
         ''lord nagafen'' [zone_kill ''Sat Feb 07 12:00:00 2026'' ''Lord Nagafen'' ''Nagafens Lair''])
      ''lord nagafen'') = []
   \<and> map entry_status (activity (process_buffered_messages (scenario_env 100 (Accepted (Some 0)))
      (buffering (scenario_app [tracked ''Lord Nagafen'' ''Nagafens Lair'' [],
                                tracked ''Lord Nagafen'' ''Lockouts'' []])
         ''lord nagafen'' [zone_kill ''Sat Feb 07 12:00:00 2026'' ''Lord Nagafen'' ''Nagafens Lair''])
      ''lord nagafen'')) = [Boss_not_found]"
  by code_simp

text \<open>
  Claim C10. When the import of the dialog module fails or showing the dialog raises,
  \<open>_handle_duplicate_boss_selection\<close> returns the first candidate, provided there is
  one; it does not report a cancellation. In \<open>_process_buffered_messages\<close> the kill
  then goes on against that first entry, exactly as if the user had chosen it.
\<close>

theorem dialog_failure_uses_first_candidate:
  assumes fail: "dialog e = Import_error \<or> dialog e = Dialog_error"
    and cands: "duplicate_bosses \<noteq> []"
  shows "handle_duplicate_boss_selection (dialog e) duplicate_bosses = Inr (Some (hd duplicate_bosses))
       \<and> (dialog_needed (bosses st) (monster sel) \<and> lower (monster sel) \<notin> active_duplicate_dialogs st
            \<longrightarrow> resolve_and_process e st sel =
                 process_resolved e (requested st sel) sel (get_bosses_by_name (bosses st) (monster sel))
                   (hd (get_bosses_by_name (bosses st) (monster sel))))"
proof -
  have first: "handle_duplicate_boss_selection (dialog e) cs = Inr (Some (hd cs))" if "cs \<noteq> []" for cs
    using fail that by (cases cs) (auto simp: handle_duplicate_boss_selection_def)
  have "resolve_and_process e st sel =
      process_resolved e (requested st sel) sel (get_bosses_by_name (bosses st) (monster sel))
        (hd (get_bosses_by_name (bosses st) (monster sel)))"
    if need: "dialog_needed (bosses st) (monster sel)"
      and free: "lower (monster sel) \<notin> active_duplicate_dialogs st"
  proof -
    from need have "get_bosses_by_name (bosses st) (monster sel) \<noteq> []"
      by (auto simp: dialog_needed_def)
    from first [OF this] resolve_dialog [OF need free, of e] show ?thesis by simp
  qed
  with first [OF cands] show ?thesis by blast
qed

text \<open>
  The theorem on the kill of Thall Va Xakra with the dialog module missing: the kill is
  posted and counted for the first entry, "F1 North".
\<close>

theorem dialog_failure_uses_first_candidate_witness:
  "handle_duplicate_boss_selection (dialog (scenario_env 100 Import_error)) [0, 1] = Inr (Some 0)
   \<and> map kill_count (bosses (resolve_and_process (scenario_env 100 Import_error)
        (scenario_app [tracked ''Thall Va Xakra'' ''Vex Thal'' ''F1 North'',
                       tracked ''Thall Va Xakra'' ''Vex Thal'' ''F1 South''])
        (zone_kill ''Sat Feb 07 12:00:00 2026'' ''Thall Va Xakra'' ''Vex Thal''))) = [1, 0]"
proof -
  let ?st = "scenario_app [tracked ''Thall Va Xakra'' ''Vex Thal'' ''F1 North'',
                       tracked ''Thall Va Xakra'' ''Vex Thal'' ''F1 South'']"
  let ?m = "zone_kill ''Sat Feb 07 12:00:00 2026'' ''Thall Va Xakra'' ''Vex Thal''"
  let ?e = "scenario_env 100 Import_error"
  have f: "dialog ?e = Import_error \<or> dialog ?e = Dialog_error" by (simp add: scenario_env_def)
  have c: "[0, 1::nat] \<noteq> []" by simp
  have h4: "dialog_needed (bosses ?st) (monster ?m)" by code_simp
  have h5: "lower (monster ?m) \<notin> active_duplicate_dialogs ?st" by (simp add: scenario_app_def)
  have r: "map kill_count (bosses (process_resolved ?e (requested ?st ?m) ?m
        (get_bosses_by_name (bosses ?st) (monster ?m)) (hd (get_bosses_by_name (bosses ?st) (monster ?m)))))
      = [1, 0]" by code_simp
  from dialog_failure_uses_first_candidate [OF f c, of ?st ?m] h4 h5 r
  show ?thesis by simp
qed


subsection \<open>The choice made when a buffer window closes\<close>

text \<open>
  The choice of the window: the first zone message wins whenever there is one; a
  window of lockout messages only gives its first message.
\<close>

lemma select_message_zone:
  "filter (\<lambda>msg. location msg \<noteq> ''Lockouts'') msgs = z # zs \<Longrightarrow> select_message msgs = Some z"
  by (simp add: select_message_def)

lemma select_message_lockout:
  assumes "filter (\<lambda>msg. location msg \<noteq> ''Lockouts'') msgs = []"
  shows "select_message msgs = (case msgs of [] \<Rightarrow> None | first # _ \<Rightarrow> Some first)"
proof -
  from assms have "\<forall>msg \<in> set msgs. location msg = ''Lockouts''"
    by (simp add: filter_empty_conv)
  then have "filter (\<lambda>msg. location msg = ''Lockouts'') msgs = msgs" by simp
  with assms show ?thesis by (simp add: select_message_def)
qed

text \<open>
  Every buffered message that differs from the selected one in some field is audited
  as skipped, in arrival order, before anything else is written to the audit trail.
\<close>

lemma differing_messages_audited:
  assumes buf: "message_buffer st k = Some buffer_data" "\<not> processed buffer_data"
    and sel: "select_message (messages buffer_data) = Some sel"
  shows "take (length (filter (\<lambda>msg. msg \<noteq> sel) (messages buffer_data)))
           (new_entries st (process_buffered_messages e st k))
         = map (skip_entry (location sel)) (filter (\<lambda>msg. msg \<noteq> sel) (messages buffer_data))"
proof -
  let ?f = "flushed st k buffer_data sel"
  let ?skips = "map (skip_entry (location sel)) (filter (\<lambda>msg. msg \<noteq> sel) (messages buffer_data))"
  let ?st' = "process_buffered_messages e st k"
  have grows: "take (length (activity st1)) (activity st2) = activity st1"
    if "untouched st1 st2 \<or> posted_once st1 st2" for st1 st2
    using that by (auto simp: untouched_def posted_once_def)
  have "\<exists>ys. activity ?st' = activity st @ ?skips @ ys"
  proof (cases "exists (bosses st) (monster sel)")
    case True
    with process_buffered_messages_open [OF buf sel, of e]
    have eq: "?st' = resolve_and_process e ?f sel" by simp
    from grows [OF resolve_and_process_ends [of ?f e sel]] eq
    have "take (length (activity ?f)) (activity ?st') = activity ?f" by simp
    then have "activity ?st' = activity ?f @ drop (length (activity ?f)) (activity ?st')"
      by (metis append_take_drop_id)
    then show ?thesis by (metis append.assoc flushed_fields(7))
  next
    case False
    let ?n = "add_activity_entry
        (?f\<lparr>pending_boss_kills := (pending_boss_kills st)(lower (monster sel) \<mapsto> sel)\<rparr>)
        sel New_boss_detected False None"
    from False process_buffered_messages_open [OF buf sel, of e]
    have eq: "?st' = handle_new_boss e ?n sel" by simp
    from False have "\<not> exists (bosses ?n) (monster sel)" by simp
    from grows [of ?n "handle_new_boss e ?n sel"] handle_new_boss_ends(1) [OF this, of e] eq
    have "take (length (activity ?n)) (activity ?st') = activity ?n" by simp
    then have "activity ?st' = activity ?n @ drop (length (activity ?n)) (activity ?st')"
      by (metis append_take_drop_id)
    moreover have "activity ?n = activity st @ ?skips @ [\<lparr>entry_message = sel,
        entry_status = New_boss_detected, entry_posted = False, entry_discord_message = None\<rparr>]"
      by simp
    ultimately show ?thesis by (metis append.assoc)
  qed
  then obtain ys where "activity ?st' = activity st @ ?skips @ ys" ..
  then have "new_entries st ?st' = ?skips @ ys" by (simp add: new_entries_def)
  then show ?thesis by simp
qed

text \<open>
  Claim C1 on a window that holds the same lockout event twice (two log lines that
  parse to the same fields): the first is selected and posted, and the second, which
  is not the winner, gets no "skipped" entry in the audit trail. The comparison
  \<open>msg != selected_message\<close> leaves out every event equal to the winner.
\<close>

theorem equal_duplicate_not_audited:
  "map entry_status (activity (process_buffered_messages (scenario_env 100 Rejected)
      (buffering (scenario_app [tracked ''Severilous'' ''The Emerald Jungle'' []]) ''severilous''
         [lockout_kill ''Sat Feb 07 12:00:02 2026'' ''Severilous'',
          lockout_kill ''Sat Feb 07 12:00:02 2026'' ''Severilous''])
      ''severilous'')) = [Posted]"
  by code_simp

text \<open>
  For comparison, the same window with the zone line and the lockout line of the kill:
  the lockout event is audited as skipped, the zone event is posted.
\<close>

lemma zone_and_lockout_window:
  "map entry_status (activity (process_buffered_messages (scenario_env 100 Rejected)
      (buffering (scenario_app [tracked ''Severilous'' ''The Emerald Jungle'' []]) ''severilous''
         [lockout_kill ''Sat Feb 07 12:00:02 2026'' ''Severilous'',
          zone_kill ''Sat Feb 07 12:00:00 2026'' ''Severilous'' ''The Emerald Jungle''])
      ''severilous'')) = [Skipped_by_buffer ''The Emerald Jungle'', Posted]"
  by code_simp


end
